theory Spec2Isabelle
  imports Complex_Main
begin

section \<open>Strings of the teleprompter panel\<close>

text \<open>
  A JavaScript string is a sequence of UTF-16 code units. A code unit is modelled by its
  number, a string by the list of its code units, so \<open>length\<close> is the \<open>.length\<close> of the
  source and \<open>drop n\<close> is \<open>.slice(n)\<close> for \<open>0 \<le> n\<close>.
\<close>

type_synonym jschar = nat
type_synonym jsstring = "jschar list"

definition isAlnum :: "jschar \<Rightarrow> bool" where
  \<comment> \<open>the character class \<open>[a-zA-Z0-9]\<close>\<close>
  "isAlnum c \<longleftrightarrow> (97 \<le> c \<and> c \<le> 122) \<or> (65 \<le> c \<and> c \<le> 90) \<or> (48 \<le> c \<and> c \<le> 57)"

definition isCJK :: "jschar \<Rightarrow> bool" where
  \<comment> \<open>the character class of the tokenizer and of \<open>isCJK\<close>: U+4E00..U+9FA5,
      U+3040..U+30FF, U+AC00..U+D7AF\<close>
  "isCJK c \<longleftrightarrow> (19968 \<le> c \<and> c \<le> 40869) \<or> (12352 \<le> c \<and> c \<le> 12543)
                \<or> (44032 \<le> c \<and> c \<le> 55215)"

definition isSpace :: "jschar \<Rightarrow> bool" where
  \<comment> \<open>the class \<open>\s\<close> of a regular expression, which is also what \<open>trim()\<close> strips:
      TAB, LF, VT, FF, CR, SP, NBSP, U+1680, U+2000..U+200A, U+2028, U+2029, U+202F,
      U+205F, U+3000, U+FEFF\<close>
  "isSpace c \<longleftrightarrow> (9 \<le> c \<and> c \<le> 13) \<or> c = 32 \<or> c = 160 \<or> c = 5760
                \<or> (8192 \<le> c \<and> c \<le> 8202) \<or> c = 8232 \<or> c = 8233 \<or> c = 8239
                \<or> c = 8287 \<or> c = 12288 \<or> c = 65279"

definition isTerminal :: "jschar \<Rightarrow> bool" where
  \<comment> \<open>the class \<open>[.!?\<dots>]\<close> of the segmenter: \<open>.\<close> \<open>!\<close> \<open>?\<close> and the East-Asian full stop
      U+3002, exclamation mark U+FF01 and question mark U+FF1F\<close>
  "isTerminal c \<longleftrightarrow> c = 46 \<or> c = 33 \<or> c = 63 \<or> c = 12290 \<or> c = 65281 \<or> c = 65311"

definition bar :: jschar where
  \<comment> \<open>the separator \<open>|\<close>\<close>
  "bar = 124"

definition toLowerCase :: "jsstring \<Rightarrow> jsstring" where
  \<comment> \<open>\<open>String.prototype.toLowerCase\<close> on the code units a token can hold (the classes
      \<open>isAlnum\<close> and \<open>isCJK\<close>): only \<open>A\<close>..\<open>Z\<close> have a lower-case form there\<close>
  "toLowerCase s = map (\<lambda>c. if 65 \<le> c \<and> c \<le> 90 then c + 32 else c) s"

section \<open>Tokenizer\<close>

text \<open>
  \<open>parseSegmentToTokens\<close> runs the global regular expression
  \<open>/[a-zA-Z0-9]+|[CJK]/g\<close> over the text with \<open>exec\<close>: at each position the longest run
  of alphanumeric code units is one token, else a single CJK code unit is one token, else
  the code unit is skipped.
\<close>

function parseSegmentToTokens :: "jsstring \<Rightarrow> jsstring list" where
  "parseSegmentToTokens [] = []"
| "parseSegmentToTokens (c # cs) =
     (if isAlnum c then (c # takeWhile isAlnum cs) # parseSegmentToTokens (dropWhile isAlnum cs)
      else if isCJK c then [c] # parseSegmentToTokens cs
      else parseSegmentToTokens cs)"
  by pat_completeness auto
termination
  by (relation "measure length") (auto simp: less_Suc_eq_le length_dropWhile_le)

section \<open>Segmenter\<close>

text \<open>
  The \<open>segments\<close> memo of the panel:
  \<open>script.replace(/([.!?\<dots>])\s*/g, "$1|").split('|').map(s => s.trim()).filter(s => s.length > 0)\<close>,
  and the empty list for an empty script.
\<close>

function addSeparators :: "jsstring \<Rightarrow> jsstring" where
  "addSeparators [] = []"
| "addSeparators (c # cs) =
     (if isTerminal c then c # bar # addSeparators (dropWhile isSpace cs)
      else c # addSeparators cs)"
  by pat_completeness auto
termination
  by (relation "measure length") (auto simp: less_Suc_eq_le length_dropWhile_le)

fun splitBar :: "jsstring \<Rightarrow> jsstring list" where
  "splitBar [] = [[]]"
| "splitBar (c # cs) =
     (if c = bar then [] # splitBar cs
      else (case splitBar cs of p # ps \<Rightarrow> (c # p) # ps | [] \<Rightarrow> [[c]]))"
  \<comment> \<open>\<open>split('|')\<close>; the result is never empty, so the last case is never taken\<close>

definition trim :: "jsstring \<Rightarrow> jsstring" where
  "trim s = rev (dropWhile isSpace (rev (dropWhile isSpace s)))"

definition segmenter :: "jsstring \<Rightarrow> jsstring list" where
  "segmenter teleprompterScript =
     (if teleprompterScript = [] then []
      else filter (\<lambda>s. length s > 0) (map trim (splitBar (addSeparators teleprompterScript))))"

definition segmentTokensMap :: "jsstring list \<Rightarrow> jsstring list list" where
  "segmentTokensMap segments = map parseSegmentToTokens segments"

section \<open>State of the panel\<close>

datatype AiFeature = NONE | INTERVIEWER | TELEPROMPTER

text \<open>
  \<open>scrollTimeoutRef\<close> holds the handle of the one timer that can be pending. Two callbacks
  are installed through it: the auto-advance of the matching effect (50 ms), which closes
  over \<open>segments.length\<close>, and the throttle of the wheel handler (150 ms), which only
  clears the reference.
\<close>

datatype timer = AutoAdvance nat | WheelThrottle

record TopPanelState =
  activeSegmentIndex :: int
  matchedWordCount :: nat
  lastTranscriptLength :: nat
  scrollTimeout :: "timer option"

definition initialState :: TopPanelState where
  "initialState = \<lparr>activeSegmentIndex = 0, matchedWordCount = 0,
                    lastTranscriptLength = 0, scrollTimeout = None\<rparr>"

definition index :: "'a list \<Rightarrow> int \<Rightarrow> 'a option" where
  \<comment> \<open>\<open>xs[i]\<close> of an array: \<open>undefined\<close> (here \<open>None\<close>) outside \<open>0..length-1\<close>\<close>
  "index xs i = (if 0 \<le> i \<and> i < int (length xs) then Some (xs ! nat i) else None)"

section \<open>The matching effect\<close>

text \<open>
  The inner loop of the effect, \<open>for (let offset = 0; offset <= 4; offset++)\<close>, from the
  given offset on: it stops at the end of \<open>currentTokens\<close>, and its result is the
  \<open>checkIndex\<close> of the first equal token (\<open>matchFound\<close>), or \<open>None\<close>.
\<close>

function localMatchFrom :: "jsstring list \<Rightarrow> nat \<Rightarrow> jsstring \<Rightarrow> nat \<Rightarrow> nat option" where
  "localMatchFrom currentTokens currentMatchIndex spokenClean offset =
     (if offset \<le> 4 then
        (let checkIndex = currentMatchIndex + offset in
         if checkIndex \<ge> length currentTokens then None
         else if spokenClean = toLowerCase (currentTokens ! checkIndex) then Some checkIndex
         else localMatchFrom currentTokens currentMatchIndex spokenClean (offset + 1))
      else None)"
  by pat_completeness auto
termination
  by (relation "measure (\<lambda>(currentTokens, currentMatchIndex, spokenClean, offset). 5 - offset)") auto

declare localMatchFrom.simps [simp del]

definition localMatch :: "jsstring list \<Rightarrow> nat \<Rightarrow> jsstring \<Rightarrow> nat option" where
  "localMatch currentTokens currentMatchIndex spokenClean =
     localMatchFrom currentTokens currentMatchIndex spokenClean 0"

definition completionRatio :: "jsstring list \<Rightarrow> nat \<Rightarrow> rat" where
  \<comment> \<open>\<open>currentTokens.length > 0 ? currentMatchIndex / currentTokens.length : 1\<close>; the
      quotient of the source is a double, and \<open>> 0.6\<close> on doubles agrees with the exact
      comparison for every array length\<close>
  "completionRatio currentTokens currentMatchIndex =
     (if length currentTokens > 0
      then of_nat currentMatchIndex / of_nat (length currentTokens) else 1)"

text \<open>
  The loop over the next segment, \<open>for (let j = 0; j < Math.min(3, nextTokens.length); j++)\<close>,
  from the given \<open>j\<close> on; its result is the \<open>j\<close> of the jump.
\<close>

function jumpFrom :: "jsstring list \<Rightarrow> jsstring \<Rightarrow> nat \<Rightarrow> nat option" where
  "jumpFrom nextTokens spokenClean j =
     (if j < min 3 (length nextTokens) then
        (if spokenClean = toLowerCase (nextTokens ! j) then Some j
         else jumpFrom nextTokens spokenClean (j + 1))
      else None)"
  by pat_completeness auto
termination
  by (relation "measure (\<lambda>(nextTokens, spokenClean, j). 3 - j)") auto

declare jumpFrom.simps [simp del]

definition jumpMatch :: "jsstring list \<Rightarrow> jsstring \<Rightarrow> nat option" where
  "jumpMatch nextTokens spokenClean = jumpFrom nextTokens spokenClean 0"

datatype loop_result = Jumped nat | Finished nat

text \<open>
  The loop over the spoken tokens. \<open>Jumped j\<close> is the early \<open>return\<close> of the jump with its
  offset; \<open>Finished m\<close> is the end of the loop with the final \<open>currentMatchIndex\<close>.
\<close>

fun matchLoop :: "jsstring list \<Rightarrow> int \<Rightarrow> jsstring list \<Rightarrow> nat \<Rightarrow> jsstring list \<Rightarrow> loop_result" where
  "matchLoop segments a currentTokens currentMatchIndex [] = Finished currentMatchIndex"
| "matchLoop segments a currentTokens currentMatchIndex (token # rest) =
     (let spokenClean = toLowerCase token in
      case localMatch currentTokens currentMatchIndex spokenClean of
        Some checkIndex \<Rightarrow> matchLoop segments a currentTokens (checkIndex + 1) rest
      | None \<Rightarrow>
          if a < int (length segments) - 1
             \<and> completionRatio currentTokens currentMatchIndex > 6 / 10
          then (case index (segmentTokensMap segments) (a + 1) of
                  None \<Rightarrow> matchLoop segments a currentTokens currentMatchIndex rest
                | Some nextTokens \<Rightarrow>
                    (case jumpMatch nextTokens spokenClean of
                       Some j \<Rightarrow> Jumped j
                     | None \<Rightarrow> matchLoop segments a currentTokens currentMatchIndex rest))
          else matchLoop segments a currentTokens currentMatchIndex rest)"

definition matchingEffect :: "AiFeature \<Rightarrow> jsstring list \<Rightarrow> jsstring \<Rightarrow> TopPanelState \<Rightarrow> TopPanelState" where
  "matchingEffect feature segments transcript st =
     (if feature \<noteq> TELEPROMPTER then st
      else if length transcript \<le> lastTranscriptLength st then st
      else
        let newText = drop (lastTranscriptLength st) transcript;
            st1 = st\<lparr>lastTranscriptLength := length transcript\<rparr>;
            spokenTokens = parseSegmentToTokens newText
        in if spokenTokens = [] then st1
           else case index (segmentTokensMap segments) (activeSegmentIndex st) of
             None \<Rightarrow> st1
           | Some currentTokens \<Rightarrow>
               (case matchLoop segments (activeSegmentIndex st) currentTokens
                       (matchedWordCount st) spokenTokens of
                  Jumped j \<Rightarrow>
                    st1\<lparr>scrollTimeout := None,
                        activeSegmentIndex := activeSegmentIndex st + 1,
                        matchedWordCount := j + 1\<rparr>
                | Finished m \<Rightarrow>
                    let st2 = st1\<lparr>matchedWordCount := m\<rparr> in
                    if length currentTokens > 0 \<and> m \<ge> length currentTokens
                    then (if scrollTimeout st2 = None
                          then st2\<lparr>scrollTimeout := Some (AutoAdvance (length segments))\<rparr>
                          else st2)
                    else st2))"

section \<open>Timer, manual control, reset\<close>

definition timerFires :: "TopPanelState \<Rightarrow> TopPanelState" where
  \<comment> \<open>the callback of the pending timer runs; nothing happens when none is pending\<close>
  "timerFires st =
     (case scrollTimeout st of
        None \<Rightarrow> st
      | Some (AutoAdvance n) \<Rightarrow>
          st\<lparr>activeSegmentIndex := min (activeSegmentIndex st + 1) (int n),
             matchedWordCount := 0, scrollTimeout := None\<rparr>
      | Some WheelThrottle \<Rightarrow> st\<lparr>scrollTimeout := None\<rparr>)"

datatype direction = Next | Prev

definition handleManualScroll :: "jsstring list \<Rightarrow> direction \<Rightarrow> TopPanelState \<Rightarrow> TopPanelState" where
  "handleManualScroll segments dir st =
     (let prev = activeSegmentIndex st;
          nextIdx = (case dir of Next \<Rightarrow> min (prev + 1) (int (length segments) - 1)
                               | Prev \<Rightarrow> max (prev - 1) 0)
      in (if nextIdx \<noteq> prev then st\<lparr>matchedWordCount := 0\<rparr> else st)
           \<lparr>activeSegmentIndex := nextIdx\<rparr>)"

definition handleWheel :: "AiFeature \<Rightarrow> jsstring list \<Rightarrow> rat \<Rightarrow> TopPanelState \<Rightarrow> TopPanelState" where
  "handleWheel feature segments deltaY st =
     (if feature \<noteq> TELEPROMPTER then st
      else if scrollTimeout st \<noteq> None then st
      else if \<bar>deltaY\<bar> > 20
      then (handleManualScroll segments (if deltaY > 0 then Next else Prev) st)
             \<lparr>scrollTimeout := Some WheelThrottle\<rparr>
      else st)"

definition resetEffect :: "TopPanelState \<Rightarrow> TopPanelState" where
  \<comment> \<open>the body of the reset effect; it leaves \<open>scrollTimeoutRef\<close> alone\<close>
  "resetEffect st = st\<lparr>activeSegmentIndex := 0, matchedWordCount := 0, lastTranscriptLength := 0\<rparr>"

text \<open>
  The events of a panel whose script and feature stay as they are. \<open>Transcript t\<close> is a
  commit with the transcript \<open>t\<close>, in which the matching effect runs. \<open>Reset\<close> is the commit
  of a feature toggle: \<open>handleSetAiFeature\<close> of the application sets the feature and clears
  the transcript in one update, so the reset effect runs and the matching effect of the
  same commit returns at its length check (the transcript is empty and the cursor 0). A
  change of the script is not among these events; it is \<open>scriptChange\<close> below.
\<close>

datatype event =
    Transcript jsstring
  | TimerFires
  | ManualScroll direction
  | Wheel rat
  | Reset

fun step :: "AiFeature \<Rightarrow> jsstring list \<Rightarrow> TopPanelState \<Rightarrow> event \<Rightarrow> TopPanelState" where
  "step feature segments st (Transcript t) = matchingEffect feature segments t st"
| "step feature segments st TimerFires = timerFires st"
| "step feature segments st (ManualScroll d) = handleManualScroll segments d st"
| "step feature segments st (Wheel dy) = handleWheel feature segments dy st"
| "step feature segments st Reset = resetEffect st"

definition run :: "AiFeature \<Rightarrow> jsstring list \<Rightarrow> TopPanelState \<Rightarrow> event list \<Rightarrow> TopPanelState" where
  "run feature segments st evs = foldl (step feature segments) st evs"

text \<open>
  The commit of a changed script, with the new \<open>segments\<close> and the transcript of that
  moment. The reset effect and the matching effect both run, in this order, after the same
  render. The matching effect therefore finds the cursor at 0 and reads the whole
  transcript again, but it still works on the \<open>activeSegmentIndex\<close> and
  \<open>matchedWordCount\<close> of the render, those of before the reset; its state updates are
  queued behind those of the reset, so its \<open>setMatchedWordCount\<close> wins over the reset's and
  its \<open>prev + 1\<close> is applied to the 0 of the reset.
\<close>

definition scriptChange :: "AiFeature \<Rightarrow> jsstring list \<Rightarrow> jsstring \<Rightarrow> TopPanelState \<Rightarrow> TopPanelState" where
  "scriptChange feature segments transcript st =
     (let st0 = resetEffect st in
      if feature \<noteq> TELEPROMPTER then st0
      else if length transcript \<le> lastTranscriptLength st0 then st0
      else
        let newText = drop (lastTranscriptLength st0) transcript;
            st1 = st0\<lparr>lastTranscriptLength := length transcript\<rparr>;
            spokenTokens = parseSegmentToTokens newText
        in if spokenTokens = [] then st1
           else case index (segmentTokensMap segments) (activeSegmentIndex st) of
             None \<Rightarrow> st1
           | Some currentTokens \<Rightarrow>
               (case matchLoop segments (activeSegmentIndex st) currentTokens
                       (matchedWordCount st) spokenTokens of
                  Jumped j \<Rightarrow>
                    st1\<lparr>scrollTimeout := None,
                        activeSegmentIndex := activeSegmentIndex st0 + 1,
                        matchedWordCount := j + 1\<rparr>
                | Finished m \<Rightarrow>
                    let st2 = st1\<lparr>matchedWordCount := m\<rparr> in
                    if length currentTokens > 0 \<and> m \<ge> length currentTokens
                    then (if scrollTimeout st2 = None
                          then st2\<lparr>scrollTimeout := Some (AutoAdvance (length segments))\<rparr>
                          else st2)
                    else st2))"

section \<open>Notions of the specification\<close>

definition nonWhitespace :: "jsstring \<Rightarrow> jsstring" where
  \<comment> \<open>the non-whitespace characters of a text, in order\<close>
  "nonWhitespace s = filter (\<lambda>c. \<not> isSpace c) s"

definition specLocalMatch :: "jsstring list \<Rightarrow> nat \<Rightarrow> jsstring \<Rightarrow> nat option" where
  \<comment> \<open>the local match in the specification's words: the first equal token among the 4
      tokens of the lookahead window that starts at \<open>matchedTokenCount\<close>, clamped to the
      end of the table\<close>
  "specLocalMatch tokens matchedTokenCount spoken =
     (case filter (\<lambda>i. spoken = toLowerCase (tokens ! i))
             [matchedTokenCount ..< min (matchedTokenCount + 4) (length tokens)] of
        [] \<Rightarrow> None
      | i # rest \<Rightarrow> Some i)"


definition invariant :: "jsstring list \<Rightarrow> TopPanelState \<Rightarrow> bool" where
  \<comment> \<open>the invariant of the alignment state in the specification's words\<close>
  "invariant segments st \<longleftrightarrow>
     0 \<le> activeSegmentIndex st \<and> activeSegmentIndex st \<le> int (length segments)
     \<and> (activeSegmentIndex st < int (length segments) \<longrightarrow>
          matchedWordCount st \<le> length (segmentTokensMap segments ! nat (activeSegmentIndex st)))"

definition timerOfScript :: "jsstring list \<Rightarrow> TopPanelState \<Rightarrow> bool" where
  \<comment> \<open>a pending auto-advance was scheduled for this script: its callback closed over
      this \<open>segments.length\<close>\<close>
  "timerOfScript segments st \<longleftrightarrow>
     (case scrollTimeout st of Some (AutoAdvance n) \<Rightarrow> n = length segments | _ \<Rightarrow> True)"

section \<open>The two bounded searches\<close>

lemma localMatchFrom_Some:
  "localMatchFrom cur m tok off = Some i \<longleftrightarrow>
     off \<le> 4 \<and> m + off \<le> i \<and> i \<le> m + 4 \<and> i < length cur \<and> tok = toLowerCase (cur ! i)
     \<and> (\<forall>k. m + off \<le> k \<and> k < i \<longrightarrow> tok \<noteq> toLowerCase (cur ! k))"
proof (induction cur m tok off rule: localMatchFrom.induct)
  case (1 cur m tok off)
  let ?P = "\<lambda>k. tok = toLowerCase (cur ! k)"
  show ?case
  proof (cases "off \<le> 4 \<and> m + off < length cur \<and> \<not> ?P (m + off)")
    case True
    then have unfold: "localMatchFrom cur m tok off = localMatchFrom cur m tok (off + 1)"
      by (subst localMatchFrom.simps) simp
    have IH: "localMatchFrom cur m tok (off + 1) = Some i \<longleftrightarrow>
       off + 1 \<le> 4 \<and> m + (off + 1) \<le> i \<and> i \<le> m + 4 \<and> i < length cur \<and> ?P i
     \<and> (\<forall>k. m + (off + 1) \<le> k \<and> k < i \<longrightarrow> \<not> ?P k)"
      using True by (intro "1.IH") auto
    have step: "(\<forall>k. m + off \<le> k \<and> k < i \<longrightarrow> \<not> ?P k) \<longleftrightarrow> (\<forall>k. m + (off + 1) \<le> k \<and> k < i \<longrightarrow> \<not> ?P k)"
    proof
      assume "\<forall>k. m + off \<le> k \<and> k < i \<longrightarrow> \<not> ?P k"
      then show "\<forall>k. m + (off + 1) \<le> k \<and> k < i \<longrightarrow> \<not> ?P k" by simp
    next
      assume a: "\<forall>k. m + (off + 1) \<le> k \<and> k < i \<longrightarrow> \<not> ?P k"
      show "\<forall>k. m + off \<le> k \<and> k < i \<longrightarrow> \<not> ?P k"
      proof (intro allI impI)
        fix k assume k: "m + off \<le> k \<and> k < i"
        then consider "k = m + off" | "m + (off + 1) \<le> k" by arith
        then show "\<not> ?P k"
        proof cases
          case 1 then show ?thesis using True by simp
        next
          case 2 then show ?thesis using a k by blast
        qed
      qed
    qed
    have ne: "?P i \<Longrightarrow> i \<noteq> m + off" using True by auto
    have bounds: "?P i \<Longrightarrow> (off + 1 \<le> 4 \<and> m + (off + 1) \<le> i \<and> i \<le> m + 4)
                      = (off \<le> 4 \<and> m + off \<le> i \<and> i \<le> m + 4)"
      using ne by arith
    show ?thesis unfolding unfold IH step using bounds by blast
  next
    case False
    then show ?thesis
      by (subst localMatchFrom.simps) (auto simp: Let_def)
  qed
qed

lemma localMatchFrom_None:
  "localMatchFrom cur m tok off = None \<longleftrightarrow>
     (\<forall>i. m + off \<le> i \<and> i \<le> m + 4 \<and> i < length cur \<longrightarrow> tok \<noteq> toLowerCase (cur ! i))"
proof -
  have "localMatchFrom cur m tok off = None \<longleftrightarrow> (\<forall>i. localMatchFrom cur m tok off \<noteq> Some i)"
    by auto
  also have "\<dots> \<longleftrightarrow> (\<forall>i. m + off \<le> i \<and> i \<le> m + 4 \<and> i < length cur \<longrightarrow> tok \<noteq> toLowerCase (cur ! i))"
  proof
    assume a: "\<forall>i. localMatchFrom cur m tok off \<noteq> Some i"
    show "\<forall>i. m + off \<le> i \<and> i \<le> m + 4 \<and> i < length cur \<longrightarrow> tok \<noteq> toLowerCase (cur ! i)"
    proof (intro allI impI notI)
      fix i assume r: "m + off \<le> i \<and> i \<le> m + 4 \<and> i < length cur" and e: "tok = toLowerCase (cur ! i)"
      define Q where "Q k \<longleftrightarrow> m + off \<le> k \<and> tok = toLowerCase (cur ! k)" for k
      have "Q i" using r e by (simp add: Q_def)
      define j where "j = (LEAST k. Q k)"
      have "Q j" unfolding j_def using \<open>Q i\<close> by (rule LeastI)
      have "j \<le> i" unfolding j_def using \<open>Q i\<close> by (rule Least_le)
      have "\<And>k. k < j \<Longrightarrow> \<not> Q k" unfolding j_def by (rule not_less_Least)
      then have "localMatchFrom cur m tok off = Some j"
        using \<open>Q j\<close> \<open>j \<le> i\<close> r unfolding localMatchFrom_Some Q_def by auto
      with a show False by simp
    qed
  next
    assume "\<forall>i. m + off \<le> i \<and> i \<le> m + 4 \<and> i < length cur \<longrightarrow> tok \<noteq> toLowerCase (cur ! i)"
    then show "\<forall>i. localMatchFrom cur m tok off \<noteq> Some i"
      unfolding localMatchFrom_Some by auto
  qed
  finally show ?thesis .
qed


lemma jumpFrom_Some:
  "jumpFrom nxt tok j0 = Some j \<longleftrightarrow>
     j0 \<le> j \<and> j < 3 \<and> j < length nxt \<and> tok = toLowerCase (nxt ! j)
     \<and> (\<forall>k. j0 \<le> k \<and> k < j \<longrightarrow> tok \<noteq> toLowerCase (nxt ! k))"
proof (induction nxt tok j0 rule: jumpFrom.induct)
  case (1 nxt tok j0)
  let ?P = "\<lambda>k. tok = toLowerCase (nxt ! k)"
  show ?case
  proof (cases "j0 < min 3 (length nxt) \<and> \<not> ?P j0")
    case True
    then have unfold: "jumpFrom nxt tok j0 = jumpFrom nxt tok (j0 + 1)"
      by (subst jumpFrom.simps) simp
    have IH: "jumpFrom nxt tok (j0 + 1) = Some j \<longleftrightarrow>
       j0 + 1 \<le> j \<and> j < 3 \<and> j < length nxt \<and> ?P j
       \<and> (\<forall>k. j0 + 1 \<le> k \<and> k < j \<longrightarrow> \<not> ?P k)"
      using True by (intro "1.IH") auto
    have step: "(\<forall>k. j0 \<le> k \<and> k < j \<longrightarrow> \<not> ?P k) \<longleftrightarrow> (\<forall>k. j0 + 1 \<le> k \<and> k < j \<longrightarrow> \<not> ?P k)"
    proof
      assume "\<forall>k. j0 \<le> k \<and> k < j \<longrightarrow> \<not> ?P k"
      then show "\<forall>k. j0 + 1 \<le> k \<and> k < j \<longrightarrow> \<not> ?P k" by simp
    next
      assume a: "\<forall>k. j0 + 1 \<le> k \<and> k < j \<longrightarrow> \<not> ?P k"
      show "\<forall>k. j0 \<le> k \<and> k < j \<longrightarrow> \<not> ?P k"
      proof (intro allI impI)
        fix k assume k: "j0 \<le> k \<and> k < j"
        then consider "k = j0" | "j0 + 1 \<le> k" by arith
        then show "\<not> ?P k"
        proof cases
          case 1 then show ?thesis using True by simp
        next
          case 2 then show ?thesis using a k by blast
        qed
      qed
    qed
    have ne: "?P j \<Longrightarrow> j \<noteq> j0" using True by auto
    have bounds: "?P j \<Longrightarrow> (j0 + 1 \<le> j) = (j0 \<le> j)"
      using ne by arith
    show ?thesis unfolding unfold IH step using bounds by blast
  next
    case False
    then show ?thesis
      by (subst jumpFrom.simps) auto
  qed
qed


section \<open>The loop over the spoken tokens\<close>

lemma matchLoop_append:
  "matchLoop segs a cur m (pre @ xs) =
     (case matchLoop segs a cur m pre of
        Jumped j \<Rightarrow> Jumped j
      | Finished m' \<Rightarrow> matchLoop segs a cur m' xs)"
  by (induction pre arbitrary: m) (auto simp: Let_def split: option.splits loop_result.splits)

lemma localMatch_bound:
  "localMatch cur m tok = Some i \<Longrightarrow> m \<le> i \<and> i < length cur"
  unfolding localMatch_def localMatchFrom_Some by simp

lemma matchLoop_Finished_bound:
  "matchLoop segs a cur m spoken = Finished m' \<Longrightarrow> m \<le> length cur \<Longrightarrow> m' \<le> length cur"
proof (induction spoken arbitrary: m)
  case Nil
  then show ?case by simp
next
  case (Cons t ts)
  show ?case
  proof (cases "localMatch cur m (toLowerCase t)")
    case None
    with Cons.prems have "matchLoop segs a cur m ts = Finished m'"
      by (auto simp: Let_def split: if_splits option.splits)
    then show ?thesis using Cons.IH Cons.prems(2) by blast
  next
    case (Some i)
    with Cons.prems have "matchLoop segs a cur (i + 1) ts = Finished m'"
      by (simp add: Let_def)
    moreover have "i + 1 \<le> length cur" using localMatch_bound [OF Some] by simp
    ultimately show ?thesis using Cons.IH by blast
  qed
qed

lemma matchLoop_Finished_mono:
  "matchLoop segs a cur m spoken = Finished m' \<Longrightarrow> m \<le> m'"
proof (induction spoken arbitrary: m)
  case Nil
  then show ?case by simp
next
  case (Cons t ts)
  show ?case
  proof (cases "localMatch cur m (toLowerCase t)")
    case None
    with Cons.prems have "matchLoop segs a cur m ts = Finished m'"
      by (auto simp: Let_def split: if_splits option.splits)
    then show ?thesis using Cons.IH by blast
  next
    case (Some i)
    with Cons.prems have "matchLoop segs a cur (i + 1) ts = Finished m'"
      by (simp add: Let_def)
    then have "i + 1 \<le> m'" using Cons.IH by blast
    then show ?thesis using localMatch_bound [OF Some] by simp
  qed
qed

lemma matchLoop_Jumped:
  "matchLoop segs a cur m spoken = Jumped j \<Longrightarrow>
     a < int (length segs) - 1 \<and>
     (\<exists>nxt. index (segmentTokensMap segs) (a + 1) = Some nxt \<and> j < 3 \<and> j < length nxt)"
proof (induction spoken arbitrary: m)
  case Nil
  then show ?case by simp
next
  case (Cons t ts)
  show ?case
  proof (cases "matchLoop segs a cur m [t]")
    case (Jumped j')
    then have "matchLoop segs a cur m (t # ts) = Jumped j'"
      using matchLoop_append [of segs a cur m "[t]" ts] by simp
    with Cons.prems have "j' = j" by simp
    with Jumped show ?thesis
      by (auto simp: Let_def jumpMatch_def jumpFrom_Some split: if_splits option.splits)
  next
    case (Finished m1)
    then have "matchLoop segs a cur m (t # ts) = matchLoop segs a cur m1 ts"
      using matchLoop_append [of segs a cur m "[t]" ts] by simp
    with Cons show ?thesis by simp
  qed
qed





lemma matchingEffect_Jumped:
  assumes "lastTranscriptLength st < length transcript"
      and "parseSegmentToTokens (drop (lastTranscriptLength st) transcript) = spoken"
      and "spoken \<noteq> []"
      and "index (segmentTokensMap segments) (activeSegmentIndex st) = Some cur"
      and "matchLoop segments (activeSegmentIndex st) cur (matchedWordCount st) spoken = Jumped j"
  shows "matchingEffect TELEPROMPTER segments transcript st =
           \<lparr>activeSegmentIndex = activeSegmentIndex st + 1, matchedWordCount = j + 1,
            lastTranscriptLength = length transcript, scrollTimeout = None\<rparr>"
  using assms by (simp add: matchingEffect_def Let_def)

lemma matchingEffect_Finished:
  assumes "lastTranscriptLength st < length transcript"
      and "parseSegmentToTokens (drop (lastTranscriptLength st) transcript) = spoken"
      and "spoken \<noteq> []"
      and "index (segmentTokensMap segments) (activeSegmentIndex st) = Some cur"
      and "matchLoop segments (activeSegmentIndex st) cur (matchedWordCount st) spoken = Finished m"
  shows "matchingEffect TELEPROMPTER segments transcript st =
           \<lparr>activeSegmentIndex = activeSegmentIndex st, matchedWordCount = m,
            lastTranscriptLength = length transcript,
            scrollTimeout = (if length cur > 0 \<and> m \<ge> length cur \<and> scrollTimeout st = None
                             then Some (AutoAdvance (length segments)) else scrollTimeout st)\<rparr>"
  using assms by (simp add: matchingEffect_def Let_def)

section \<open>Evaluation of concrete runs\<close>

lemmas token_eval = isAlnum_def isCJK_def toLowerCase_def
lemmas loop_eval = localMatch_def localMatchFrom.simps jumpMatch_def jumpFrom.simps
  completionRatio_def index_def segmentTokensMap_def

lemmas panel_eval = matchingEffect_def initialState_def timerFires_def handleManualScroll_def
  handleWheel_def resetEffect_def run_def

section \<open>Local match\<close>

text \<open>
  Claim C7, as the code has it. For a spoken token (lower-cased), the local match examines
  the positions \<open>matchedTokenCount + 0\<close> to \<open>matchedTokenCount + 4\<close> of the active
  segment's token table, five positions, and none at or past the end of the table. Its
  result is the first of these positions whose lower-cased token equals the spoken token,
  and there is none exactly when no position of that range holds an equal token. On a
  match at position \<open>i\<close> the loop goes on with the next spoken token and
  \<open>matchedTokenCount = i + 1\<close>.
\<close>

theorem local_match_window:
  "(localMatch cur m tok = Some i \<longleftrightarrow>
      m \<le> i \<and> i \<le> m + 4 \<and> i < length cur \<and> tok = toLowerCase (cur ! i)
      \<and> (\<forall>k. m \<le> k \<and> k < i \<longrightarrow> tok \<noteq> toLowerCase (cur ! k)))
   \<and> (localMatch cur m tok = None \<longleftrightarrow>
      (\<forall>k. m \<le> k \<and> k \<le> m + 4 \<and> k < length cur \<longrightarrow> tok \<noteq> toLowerCase (cur ! k)))
   \<and> (localMatch cur m (toLowerCase token) = Some i \<longrightarrow>
      matchLoop segs a cur m (token # rest) = matchLoop segs a cur (i + 1) rest)"
proof (intro conjI)
  show "localMatch cur m tok = Some i \<longleftrightarrow>
      m \<le> i \<and> i \<le> m + 4 \<and> i < length cur \<and> tok = toLowerCase (cur ! i)
      \<and> (\<forall>k. m \<le> k \<and> k < i \<longrightarrow> tok \<noteq> toLowerCase (cur ! k))"
    unfolding localMatch_def localMatchFrom_Some by simp
  show "localMatch cur m tok = None \<longleftrightarrow>
      (\<forall>k. m \<le> k \<and> k \<le> m + 4 \<and> k < length cur \<longrightarrow> tok \<noteq> toLowerCase (cur ! k))"
    unfolding localMatch_def localMatchFrom_None by simp
  show "localMatch cur m (toLowerCase token) = Some i \<longrightarrow>
      matchLoop segs a cur m (token # rest) = matchLoop segs a cur (i + 1) rest"
    by (simp add: Let_def)
qed

text \<open>
  An instance: with the table \<open>a b c d e f\<close> and nothing matched, the spoken token \<open>E\<close>
  matches at position 4 and the loop goes on from 5, where \<open>f\<close> matches; the spoken token
  \<open>f\<close> at position 5 is out of reach from 0.
\<close>

theorem local_match_window_witness:
  "localMatch [[97], [98], [99], [100], [101], [102]] 0 (toLowerCase [69]) = Some 4
   \<and> matchLoop [] 0 [[97], [98], [99], [100], [101], [102]] 0 [[69], [102]]
       = matchLoop [] 0 [[97], [98], [99], [100], [101], [102]] (4 + 1) [[102]]
   \<and> matchLoop [] 0 [[97], [98], [99], [100], [101], [102]] (4 + 1) [[102]] = Finished 6
   \<and> localMatch [[97], [98], [99], [100], [101], [102]] 0 [102] = None"
proof -
  have h: "localMatch [[97], [98], [99], [100], [101], [102]] 0 (toLowerCase [69]) = Some 4"
    by (simp add: localMatch_def localMatchFrom.simps toLowerCase_def)
  have "matchLoop [] 0 [[97], [98], [99], [100], [101], [102]] 0 [[69], [102]]
       = matchLoop [] 0 [[97], [98], [99], [100], [101], [102]] (4 + 1) [[102]]"
    using local_match_window [of "[[97], [98], [99], [100], [101], [102]]" 0 "[101]" 4 "[69]" "[]" 0 "[[102]]"] h
    by blast
  moreover have "matchLoop [] 0 [[97], [98], [99], [100], [101], [102]] (4 + 1) [[102]] = Finished 6"
    by (simp add: loop_eval token_eval)
  moreover have "localMatch [[97], [98], [99], [100], [101], [102]] 0 [102] = None"
    by (simp add: localMatch_def localMatchFrom.simps toLowerCase_def)
  ultimately show ?thesis using h by blast
qed

text \<open>
  A window of 4 tokens, as the specification words it, ends before position 4: with the
  table \<open>a b c d e\<close> and nothing matched, the spoken token \<open>e\<close> is beyond it, and the code
  matches it.
\<close>

theorem local_match_fifth_token:
  "localMatch [[97], [98], [99], [100], [101]] 0 [101] = Some 4
   \<and> specLocalMatch [[97], [98], [99], [100], [101]] 0 [101] = None"
  by (simp add: localMatch_def localMatchFrom.simps toLowerCase_def specLocalMatch_def upt_rec)

section \<open>Cross-segment jump\<close>




section \<open>The transcript cursor\<close>

lemma matchingEffect_stale:
  "length transcript \<le> lastTranscriptLength st \<Longrightarrow> matchingEffect feature segments transcript st = st"
  by (simp add: matchingEffect_def)

lemma matchingEffect_end_of_script:
  assumes "index (segmentTokensMap segments) (activeSegmentIndex st) = None"
  shows "matchingEffect feature segments transcript st =
           (if feature = TELEPROMPTER \<and> lastTranscriptLength st < length transcript
            then st\<lparr>lastTranscriptLength := length transcript\<rparr> else st)"
  using assms by (simp add: matchingEffect_def Let_def)

lemma matchingEffect_lastTranscriptLength:
  "lastTranscriptLength (matchingEffect feature segments transcript st)
     = (if feature = TELEPROMPTER then max (lastTranscriptLength st) (length transcript)
        else lastTranscriptLength st)"
proof (cases "feature = TELEPROMPTER \<and> lastTranscriptLength st < length transcript")
  case False
  then show ?thesis by (auto simp: matchingEffect_def)
next
  case True
  let ?st1 = "st\<lparr>lastTranscriptLength := length transcript\<rparr>"
  let ?spoken = "parseSegmentToTokens (drop (lastTranscriptLength st) transcript)"
  show ?thesis
  proof (cases "?spoken = []")
    case e: True
    then show ?thesis using True by (simp add: matchingEffect_def Let_def)
  next
    case ne: False
    show ?thesis
    proof (cases "index (segmentTokensMap segments) (activeSegmentIndex st)")
      case None
      then show ?thesis using True ne by (simp add: matchingEffect_def Let_def)
    next
      case (Some cur)
      show ?thesis
      proof (cases "matchLoop segments (activeSegmentIndex st) cur (matchedWordCount st) ?spoken")
        case (Jumped j)
        then show ?thesis using True ne Some by (simp add: matchingEffect_def Let_def)
      next
        case (Finished m)
        then show ?thesis using True ne Some by (simp add: matchingEffect_def Let_def)
      qed
    qed
  qed
qed

lemma step_lastTranscriptLength:
  "ev \<noteq> Reset \<Longrightarrow> lastTranscriptLength st \<le> lastTranscriptLength (step feature segments st ev)"
proof (cases ev)
  case (Transcript t)
  then show ?thesis by (simp add: matchingEffect_lastTranscriptLength)
next
  case TimerFires
  then show ?thesis by (simp add: timerFires_def split: option.splits timer.splits)
next
  case (ManualScroll d)
  then show ?thesis by (simp add: handleManualScroll_def Let_def)
next
  case (Wheel dy)
  then show ?thesis by (simp add: handleWheel_def handleManualScroll_def Let_def)
next
  case Reset
  assume "ev \<noteq> Reset"
  with Reset show ?thesis by simp
qed

lemma run_lastTranscriptLength:
  "\<forall>ev \<in> set evs. ev \<noteq> Reset \<Longrightarrow>
     lastTranscriptLength st \<le> lastTranscriptLength (run feature segments st evs)"
proof (induction evs arbitrary: st)
  case Nil
  then show ?case by (simp add: run_def)
next
  case (Cons ev evs)
  have "lastTranscriptLength st \<le> lastTranscriptLength (step feature segments st ev)"
    using Cons.prems by (intro step_lastTranscriptLength) simp
  also have "\<dots> \<le> lastTranscriptLength (run feature segments (step feature segments st ev) evs)"
    using Cons.prems by (intro Cons.IH) simp
  finally show ?case by (simp add: run_def)
qed

text \<open>
  Claim C3. A call of the matching effect whose transcript is no longer than
  \<open>lastTranscriptLength\<close> returns the state it was given: the active segment, the match
  count, the recorded length and the pending timer are unchanged. The effect is a total
  function of its arguments and none of its branches raises, so there is no exception to
  model. Consequently the recorded length never decreases along any sequence of transcript
  updates, timer firings and manual navigation; only the reset effect sets it back to 0.
\<close>

theorem stale_transcript_is_noop:
  "(length transcript \<le> lastTranscriptLength st \<longrightarrow>
      matchingEffect feature segments transcript st = st)
   \<and> ((\<forall>ev \<in> set evs. ev \<noteq> Reset) \<longrightarrow>
      lastTranscriptLength st \<le> lastTranscriptLength (run feature segments st evs))"
proof (intro conjI impI)
  assume "length transcript \<le> lastTranscriptLength st"
  then show "matchingEffect feature segments transcript st = st"
    by (rule matchingEffect_stale)
next
  assume "\<forall>ev \<in> set evs. ev \<noteq> Reset"
  then show "lastTranscriptLength st \<le> lastTranscriptLength (run feature segments st evs)"
    by (rule run_lastTranscriptLength)
qed

text \<open>
  An instance: with 3 code units recorded, the transcript \<open>a\<close> changes nothing, and the
  recorded length is still at least 3 after a transcript, a manual advance and a timer.
\<close>

theorem stale_transcript_is_noop_witness:
  "length [97 :: nat] \<le> lastTranscriptLength (initialState\<lparr>lastTranscriptLength := 3\<rparr>)
   \<and> matchingEffect TELEPROMPTER [[97, 32, 98, 46]] [97] (initialState\<lparr>lastTranscriptLength := 3\<rparr>)
       = initialState\<lparr>lastTranscriptLength := 3\<rparr>
   \<and> list_all (\<lambda>ev. ev \<noteq> Reset) [Transcript [97], ManualScroll Next, TimerFires]
   \<and> lastTranscriptLength (initialState\<lparr>lastTranscriptLength := 3\<rparr>)
       \<le> lastTranscriptLength (run TELEPROMPTER [[97, 32, 98, 46]]
            (initialState\<lparr>lastTranscriptLength := 3\<rparr>)
            [Transcript [97], ManualScroll Next, TimerFires])"
  using stale_transcript_is_noop [of "[97]" "initialState\<lparr>lastTranscriptLength := 3\<rparr>"
      TELEPROMPTER "[[97, 32, 98, 46]]" "[Transcript [97], ManualScroll Next, TimerFires]"]
  by (simp add: initialState_def)

section \<open>Debounced auto-advance\<close>

text \<open>
  What the effect does after a full match. Let a delta with at least one spoken token be
  processed to the end of the loop without a jump, with the final match count \<open>m\<close>, the
  active segment having at least one token and \<open>m\<close> being at least its token count. The
  effect leaves the active segment as it is and records \<open>m\<close>; it schedules the auto-advance
  when \<open>scrollTimeoutRef\<close> is empty and leaves the reference alone otherwise. If the
  reference then holds the auto-advance of this script, its firing advances
  \<open>activeSegmentIndex\<close> by one, capped at \<open>segments.length\<close>, and resets
  \<open>matchedWordCount\<close>; from the last segment this is the terminal state, where the same
  transcript changes nothing and a later one moves the cursor only.
\<close>

lemma auto_advance_after_full_match:
  assumes len: "lastTranscriptLength st < length transcript"
      and spoken: "parseSegmentToTokens (drop (lastTranscriptLength st) transcript) = spoken"
      and ne: "spoken \<noteq> []"
      and cur: "index (segmentTokensMap segments) (activeSegmentIndex st) = Some currentTokens"
      and fin: "matchLoop segments (activeSegmentIndex st) currentTokens (matchedWordCount st) spoken
                  = Finished m"
      and tokens: "length currentTokens > 0"
      and full: "m \<ge> length currentTokens"
  defines "st' \<equiv> matchingEffect TELEPROMPTER segments transcript st"
  shows "activeSegmentIndex st' = activeSegmentIndex st \<and> matchedWordCount st' = m
       \<and> scrollTimeout st' = (case scrollTimeout st of
                                None \<Rightarrow> Some (AutoAdvance (length segments))
                              | Some pending \<Rightarrow> Some pending)
       \<and> (scrollTimeout st' = Some (AutoAdvance (length segments)) \<longrightarrow>
            timerFires st' = st'\<lparr>activeSegmentIndex := min (activeSegmentIndex st + 1) (int (length segments)),
                                  matchedWordCount := 0, scrollTimeout := None\<rparr>
            \<and> (activeSegmentIndex st = int (length segments) - 1 \<longrightarrow>
                  activeSegmentIndex (timerFires st') = int (length segments)
                  \<and> matchedWordCount (timerFires st') = 0
                  \<and> matchingEffect TELEPROMPTER segments transcript (timerFires st') = timerFires st'
                  \<and> (\<forall>later. matchingEffect TELEPROMPTER segments later (timerFires st')
                        = (timerFires st')\<lparr>lastTranscriptLength :=
                             max (length transcript) (length later)\<rparr>)))"
proof -
  have st': "st' = \<lparr>activeSegmentIndex = activeSegmentIndex st, matchedWordCount = m,
            lastTranscriptLength = length transcript,
            scrollTimeout = (if length currentTokens > 0 \<and> m \<ge> length currentTokens \<and> scrollTimeout st = None
                             then Some (AutoAdvance (length segments)) else scrollTimeout st)\<rparr>"
    unfolding st'_def by (rule matchingEffect_Finished [OF len spoken ne cur fin])
  have 1: "activeSegmentIndex st' = activeSegmentIndex st \<and> matchedWordCount st' = m"
    by (simp add: st')
  have 2: "scrollTimeout st' = (case scrollTimeout st of
                                None \<Rightarrow> Some (AutoAdvance (length segments))
                              | Some pending \<Rightarrow> Some pending)"
    using tokens full by (simp add: st' split: option.splits)
  have 3: "timerFires st' = st'\<lparr>activeSegmentIndex := min (activeSegmentIndex st + 1) (int (length segments)),
                                  matchedWordCount := 0, scrollTimeout := None\<rparr>"
    if "scrollTimeout st' = Some (AutoAdvance (length segments))"
    using that 1 by (simp add: timerFires_def)
  have 4: "activeSegmentIndex (timerFires st') = int (length segments)
           \<and> matchedWordCount (timerFires st') = 0
           \<and> matchingEffect TELEPROMPTER segments transcript (timerFires st') = timerFires st'
           \<and> (\<forall>later. matchingEffect TELEPROMPTER segments later (timerFires st')
                        = (timerFires st')\<lparr>lastTranscriptLength :=
                             max (length transcript) (length later)\<rparr>)"
    if t: "scrollTimeout st' = Some (AutoAdvance (length segments))"
      and last: "activeSegmentIndex st = int (length segments) - 1"
  proof -
    let ?t = "timerFires st'"
    have a: "activeSegmentIndex ?t = int (length segments)" and b: "matchedWordCount ?t = 0"
      and l: "lastTranscriptLength ?t = length transcript"
      using 3 [OF t] last by (simp_all add: st')
    have none: "index (segmentTokensMap segments) (activeSegmentIndex ?t) = None"
      unfolding a by (simp add: index_def segmentTokensMap_def)
    have "matchingEffect TELEPROMPTER segments later ?t
            = ?t\<lparr>lastTranscriptLength := max (length transcript) (length later)\<rparr>" for later
      unfolding matchingEffect_end_of_script [OF none] using l by (simp add: max_def)
    moreover have "matchingEffect TELEPROMPTER segments transcript ?t = ?t"
      by (rule matchingEffect_stale) (simp add: l)
    ultimately show ?thesis using a b by blast
  qed
  show ?thesis using 1 2 3 4 by blast
qed

text \<open>
  A segment without tokens has \<open>matchedTokenCount >= tokenCount\<close> from the start, but
  the guard \<open>currentTokens.length > 0\<close> of the auto-advance keeps the timer from being
  scheduled. Segments \<open>!\<close> and \<open>a.\<close>, transcript \<open>x\<close>: the delta is processed to the end
  without a jump, and no timer is pending afterwards.
\<close>

lemma no_timer_for_segment_without_tokens:
  "segmentTokensMap [[33], [97, 46]] = [[], [[97]]]
   \<and> matchLoop [[33], [97, 46]] 0 [] 0 (parseSegmentToTokens [120]) = Finished 0
   \<and> matchingEffect TELEPROMPTER [[33], [97, 46]] [120] initialState
       = \<lparr>activeSegmentIndex = 0, matchedWordCount = 0, lastTranscriptLength = 1,
          scrollTimeout = None\<rparr>"
  by (simp add: matchingEffect_def initialState_def loop_eval token_eval)

text \<open>
  Claim C2 at a failing input. \<open>scrollTimeoutRef\<close> serves two timers, the auto-advance of
  the matching effect and the throttle of the wheel handler, and the effect schedules the
  auto-advance only when the reference is empty. Script \<open>a.\<close>: a wheel gesture upwards
  leaves segment 0 where it is and arms the throttle; the transcript \<open>a\<close> then completes
  the last segment, but the throttle is pending and no auto-advance is scheduled; the
  throttle fires and only clears the reference. The machine stays at \<open>(0, 1)\<close> and never
  reaches the terminal state \<open>(1, 0)\<close>: the next transcript \<open>a.\<close> adds no spoken token, so
  the effect returns before its auto-advance check, and no timer is left to fire.
\<close>

theorem wheel_throttle_blocks_auto_advance:
  "run TELEPROMPTER [[97, 46]] initialState [Wheel (- 30), Transcript [97]]
     = \<lparr>activeSegmentIndex = 0, matchedWordCount = 1, lastTranscriptLength = 1,
        scrollTimeout = Some WheelThrottle\<rparr>
   \<and> run TELEPROMPTER [[97, 46]] initialState [Wheel (- 30), Transcript [97], TimerFires]
     = \<lparr>activeSegmentIndex = 0, matchedWordCount = 1, lastTranscriptLength = 1,
        scrollTimeout = None\<rparr>
   \<and> run TELEPROMPTER [[97, 46]] initialState
        [Wheel (- 30), Transcript [97], TimerFires, Transcript [97, 46], TimerFires]
     = \<lparr>activeSegmentIndex = 0, matchedWordCount = 1, lastTranscriptLength = 2,
        scrollTimeout = None\<rparr>"
  by (simp add: panel_eval loop_eval token_eval)

section \<open>Manual navigation\<close>

text \<open>
  Claim C10. For a script with at least one segment, the manual advance in the terminal
  state \<open>activeSegmentIndex = segments.length\<close> moves back to \<open>segments.length - 1\<close> and
  resets \<open>matchedWordCount\<close> to 0; and after a manual advance or retreat from any state
  with \<open>activeSegmentIndex \<le> segments.length\<close> the machine is not in the terminal state.
\<close>

theorem manual_advance_leaves_terminal_state:
  "segments \<noteq> [] \<longrightarrow>
     (activeSegmentIndex st = int (length segments) \<longrightarrow>
        handleManualScroll segments Next st
          = st\<lparr>matchedWordCount := 0, activeSegmentIndex := int (length segments) - 1\<rparr>)
     \<and> (activeSegmentIndex st \<le> int (length segments) \<longrightarrow>
        activeSegmentIndex (handleManualScroll segments dir st) < int (length segments))"
  by (cases dir) (auto simp: handleManualScroll_def Let_def)

text \<open>
  An instance: the script \<open>a.\<close> in its terminal state 1. The advance gives the state
  \<open>(0, 0)\<close>, and so does the retreat.
\<close>

theorem manual_advance_leaves_terminal_state_witness:
  "[[97, 46 :: nat]] \<noteq> []
   \<and> activeSegmentIndex (initialState\<lparr>activeSegmentIndex := 1\<rparr>) = int (length [[97, 46 :: nat]])
   \<and> handleManualScroll [[97, 46]] Next (initialState\<lparr>activeSegmentIndex := 1\<rparr>) = initialState
   \<and> activeSegmentIndex (handleManualScroll [[97, 46]] Prev (initialState\<lparr>activeSegmentIndex := 1\<rparr>))
       < int (length [[97, 46 :: nat]])"
  using manual_advance_leaves_terminal_state [of "[[97, 46]]" "initialState\<lparr>activeSegmentIndex := 1\<rparr>" Prev]
  by (simp add: initialState_def)

text \<open>
  Claim C4 at a failing input. \<open>handleManualScroll\<close> never touches \<open>scrollTimeoutRef\<close>, so
  a pending auto-advance survives a manual navigation and fires on the segment the
  navigation went to. Segments \<open>a.\<close>, \<open>b.\<close>, \<open>c.\<close>: the transcript \<open>a\<close> completes
  segment 0 and schedules the auto-advance; the manual advance goes to segment 1 with the
  timer still pending; the timer then fires and goes on to segment 2.
\<close>

theorem manual_scroll_keeps_pending_timer:
  "scrollTimeout (handleManualScroll segments dir st) = scrollTimeout st
   \<and> run TELEPROMPTER [[97, 46], [98, 46], [99, 46]] initialState [Transcript [97]]
       = \<lparr>activeSegmentIndex = 0, matchedWordCount = 1, lastTranscriptLength = 1,
          scrollTimeout = Some (AutoAdvance 3)\<rparr>
   \<and> run TELEPROMPTER [[97, 46], [98, 46], [99, 46]] initialState
        [Transcript [97], ManualScroll Next]
       = \<lparr>activeSegmentIndex = 1, matchedWordCount = 0, lastTranscriptLength = 1,
          scrollTimeout = Some (AutoAdvance 3)\<rparr>
   \<and> run TELEPROMPTER [[97, 46], [98, 46], [99, 46]] initialState
        [Transcript [97], ManualScroll Next, TimerFires]
       = \<lparr>activeSegmentIndex = 2, matchedWordCount = 0, lastTranscriptLength = 1,
          scrollTimeout = None\<rparr>"
proof (intro conjI)
  show "scrollTimeout (handleManualScroll segments dir st) = scrollTimeout st"
    by (simp add: handleManualScroll_def Let_def)
  have 1: "run TELEPROMPTER [[97, 46], [98, 46], [99, 46]] initialState [Transcript [97]]
       = \<lparr>activeSegmentIndex = 0, matchedWordCount = 1, lastTranscriptLength = 1,
          scrollTimeout = Some (AutoAdvance 3)\<rparr>"
    by (simp add: panel_eval loop_eval token_eval)
  then show "run TELEPROMPTER [[97, 46], [98, 46], [99, 46]] initialState [Transcript [97]]
       = \<lparr>activeSegmentIndex = 0, matchedWordCount = 1, lastTranscriptLength = 1,
          scrollTimeout = Some (AutoAdvance 3)\<rparr>" .
  from 1 show "run TELEPROMPTER [[97, 46], [98, 46], [99, 46]] initialState
        [Transcript [97], ManualScroll Next]
       = \<lparr>activeSegmentIndex = 1, matchedWordCount = 0, lastTranscriptLength = 1,
          scrollTimeout = Some (AutoAdvance 3)\<rparr>"
    by (simp add: run_def handleManualScroll_def)
  from 1 show "run TELEPROMPTER [[97, 46], [98, 46], [99, 46]] initialState
        [Transcript [97], ManualScroll Next, TimerFires]
       = \<lparr>activeSegmentIndex = 2, matchedWordCount = 0, lastTranscriptLength = 1,
          scrollTimeout = None\<rparr>"
    by (simp add: run_def handleManualScroll_def timerFires_def)
qed

section \<open>Spoken tokens after a jump\<close>

text \<open>
  Claim C5 at a failing input. The effect records the full length of the transcript before
  it processes the delta, so the spoken tokens after a jump are behind the cursor and are
  never read again. Segments \<open>a b c.\<close> and \<open>d e f.\<close>, transcript \<open>a b d e\<close>: the jump at
  \<open>d\<close> gives the state \<open>(1, 1)\<close> with all 7 code units recorded; the next call with the
  same transcript is a no-op, and the state stays \<open>(1, 1)\<close>, although \<open>e\<close> matched against
  the new active segment from 1 would give the match count 2. The loss lasts: with the
  segments \<open>a b c.\<close> and \<open>d e f g h i j k.\<close> and the transcript \<open>a b d e f g h i\<close>,
  the tokens \<open>e\<close> to \<open>i\<close> are dropped at the jump, and the \<open>j\<close> of the next transcript
  \<open>a b d e f g h i j\<close> is then out of reach of the local match from 1.
\<close>

theorem tokens_after_jump_are_dropped:
  "run TELEPROMPTER [[97, 32, 98, 32, 99, 46], [100, 32, 101, 32, 102, 46]] initialState
        [Transcript [97, 32, 98, 32, 100, 32, 101]]
     = \<lparr>activeSegmentIndex = 1, matchedWordCount = 1, lastTranscriptLength = 7,
        scrollTimeout = None\<rparr>
   \<and> run TELEPROMPTER [[97, 32, 98, 32, 99, 46], [100, 32, 101, 32, 102, 46]] initialState
        [Transcript [97, 32, 98, 32, 100, 32, 101], Transcript [97, 32, 98, 32, 100, 32, 101]]
     = \<lparr>activeSegmentIndex = 1, matchedWordCount = 1, lastTranscriptLength = 7,
        scrollTimeout = None\<rparr>
   \<and> matchLoop [[97, 32, 98, 32, 99, 46], [100, 32, 101, 32, 102, 46]] 1
        [[100], [101], [102]] 1 [[101]] = Finished 2
   \<and> run TELEPROMPTER
        [[97, 32, 98, 32, 99, 46],
         [100, 32, 101, 32, 102, 32, 103, 32, 104, 32, 105, 32, 106, 32, 107, 46]]
        initialState
        [Transcript [97, 32, 98, 32, 100, 32, 101, 32, 102, 32, 103, 32, 104, 32, 105],
         Transcript [97, 32, 98, 32, 100, 32, 101, 32, 102, 32, 103, 32, 104, 32, 105, 32, 106]]
     = \<lparr>activeSegmentIndex = 1, matchedWordCount = 1, lastTranscriptLength = 17,
        scrollTimeout = None\<rparr>"
proof (intro conjI)
  show "run TELEPROMPTER
        [[97, 32, 98, 32, 99, 46],
         [100, 32, 101, 32, 102, 32, 103, 32, 104, 32, 105, 32, 106, 32, 107, 46]]
        initialState
        [Transcript [97, 32, 98, 32, 100, 32, 101, 32, 102, 32, 103, 32, 104, 32, 105],
         Transcript [97, 32, 98, 32, 100, 32, 101, 32, 102, 32, 103, 32, 104, 32, 105, 32, 106]]
     = \<lparr>activeSegmentIndex = 1, matchedWordCount = 1, lastTranscriptLength = 17,
        scrollTimeout = None\<rparr>"
    by (simp add: panel_eval loop_eval token_eval)
  have 1: "run TELEPROMPTER [[97, 32, 98, 32, 99, 46], [100, 32, 101, 32, 102, 46]] initialState
        [Transcript [97, 32, 98, 32, 100, 32, 101]]
     = \<lparr>activeSegmentIndex = 1, matchedWordCount = 1, lastTranscriptLength = 7,
        scrollTimeout = None\<rparr>"
    by (simp add: panel_eval loop_eval token_eval)
  then show "run TELEPROMPTER [[97, 32, 98, 32, 99, 46], [100, 32, 101, 32, 102, 46]] initialState
        [Transcript [97, 32, 98, 32, 100, 32, 101]]
     = \<lparr>activeSegmentIndex = 1, matchedWordCount = 1, lastTranscriptLength = 7,
        scrollTimeout = None\<rparr>" .
  from 1 show "run TELEPROMPTER [[97, 32, 98, 32, 99, 46], [100, 32, 101, 32, 102, 46]] initialState
        [Transcript [97, 32, 98, 32, 100, 32, 101], Transcript [97, 32, 98, 32, 100, 32, 101]]
     = \<lparr>activeSegmentIndex = 1, matchedWordCount = 1, lastTranscriptLength = 7,
        scrollTimeout = None\<rparr>"
    by (simp add: run_def matchingEffect_stale)
  show "matchLoop [[97, 32, 98, 32, 99, 46], [100, 32, 101, 32, 102, 46]] 1
        [[100], [101], [102]] 1 [[101]] = Finished 2"
    by (simp add: loop_eval token_eval)
qed

section \<open>The script of two Chinese sentences\<close>

text \<open>
  Claim C9, as the code has it. The script of the two sentences is segmented into them. The
  first segment has 4 tokens, its four ideographs; the full stop U+3002 is not a token.
  The transcript has 6 spoken tokens. From the initial state the first four spoken tokens
  match segment 0 at 4 of 4, the fifth finds no local match and hits segment 1 at offset
  0, and the effect ends in the state \<open>(1, 1)\<close>.
\<close>

theorem chinese_script_run:
  "segmenter [20320, 22909, 19990, 30028, 12290, 20170, 22825, 22825, 27668, 24456, 22909, 12290]
     = [[20320, 22909, 19990, 30028, 12290], [20170, 22825, 22825, 27668, 24456, 22909, 12290]]
   \<and> parseSegmentToTokens [20320, 22909, 19990, 30028, 12290]
     = [[20320], [22909], [19990], [30028]]
   \<and> parseSegmentToTokens [20320, 22909, 19990, 30028, 32, 20170, 22825]
     = [[20320], [22909], [19990], [30028], [20170], [22825]]
   \<and> matchLoop [[20320, 22909, 19990, 30028, 12290], [20170, 22825, 22825, 27668, 24456, 22909, 12290]]
        0 [[20320], [22909], [19990], [30028]] 0 [[20320], [22909], [19990], [30028]]
     = Finished 4
   \<and> matchLoop [[20320, 22909, 19990, 30028, 12290], [20170, 22825, 22825, 27668, 24456, 22909, 12290]]
        0 [[20320], [22909], [19990], [30028]] 4 [[20170], [22825]]
     = Jumped 0
   \<and> matchingEffect TELEPROMPTER
        [[20320, 22909, 19990, 30028, 12290], [20170, 22825, 22825, 27668, 24456, 22909, 12290]]
        [20320, 22909, 19990, 30028, 32, 20170, 22825] initialState
     = \<lparr>activeSegmentIndex = 1, matchedWordCount = 1, lastTranscriptLength = 7,
        scrollTimeout = None\<rparr>"
proof (intro conjI)
  show "segmenter [20320, 22909, 19990, 30028, 12290, 20170, 22825, 22825, 27668, 24456, 22909, 12290]
     = [[20320, 22909, 19990, 30028, 12290], [20170, 22825, 22825, 27668, 24456, 22909, 12290]]"
    by (simp add: segmenter_def trim_def isSpace_def isTerminal_def bar_def)
  show "parseSegmentToTokens [20320, 22909, 19990, 30028, 12290]
     = [[20320], [22909], [19990], [30028]]"
    by (simp add: token_eval)
  show "parseSegmentToTokens [20320, 22909, 19990, 30028, 32, 20170, 22825]
     = [[20320], [22909], [19990], [30028], [20170], [22825]]"
    by (simp add: token_eval)
  show "matchLoop [[20320, 22909, 19990, 30028, 12290], [20170, 22825, 22825, 27668, 24456, 22909, 12290]]
        0 [[20320], [22909], [19990], [30028]] 0 [[20320], [22909], [19990], [30028]]
     = Finished 4"
    by (simp add: loop_eval token_eval)
  show "matchLoop [[20320, 22909, 19990, 30028, 12290], [20170, 22825, 22825, 27668, 24456, 22909, 12290]]
        0 [[20320], [22909], [19990], [30028]] 4 [[20170], [22825]]
     = Jumped 0"
    by (simp add: loop_eval token_eval)
  show "matchingEffect TELEPROMPTER
        [[20320, 22909, 19990, 30028, 12290], [20170, 22825, 22825, 27668, 24456, 22909, 12290]]
        [20320, 22909, 19990, 30028, 32, 20170, 22825] initialState
     = \<lparr>activeSegmentIndex = 1, matchedWordCount = 1, lastTranscriptLength = 7,
        scrollTimeout = None\<rparr>"
    by (simp add: panel_eval loop_eval token_eval)
qed

text \<open>The first segment does not have 5 tokens.\<close>

theorem chinese_segment_has_four_tokens:
  "length (parseSegmentToTokens [20320, 22909, 19990, 30028, 12290]) \<noteq> 5"
  by (simp add: token_eval)

section \<open>The invariant of the alignment state\<close>

text \<open>
  While the script stays as it is and has at least one segment, every event of \<open>run\<close>
  (a transcript, a timer, a manual scroll, a wheel gesture, the reset of a feature toggle)
  preserves the invariant, with every pending auto-advance being one scheduled for this
  script. A change of the script is not such an event, and it can break the bound on
  \<open>matchedWordCount\<close>; see \<open>script_change_keeps_stale_count\<close> below.
\<close>

lemma invariant_matchingEffect:
  assumes inv: "invariant segments st" and tm: "timerOfScript segments st"
  shows "invariant segments (matchingEffect feature segments transcript st)
         \<and> timerOfScript segments (matchingEffect feature segments transcript st)"
proof (cases "feature = TELEPROMPTER \<and> lastTranscriptLength st < length transcript")
  case False
  then show ?thesis using inv tm by (auto simp: matchingEffect_def)
next
  case True
  then have feature: "feature = TELEPROMPTER" and len: "lastTranscriptLength st < length transcript"
    by simp_all
  let ?spoken = "parseSegmentToTokens (drop (lastTranscriptLength st) transcript)"
  let ?a = "activeSegmentIndex st"
  show ?thesis
  proof (cases "?spoken = []")
    case e: True
    then show ?thesis using True inv tm
      by (simp add: matchingEffect_def Let_def invariant_def timerOfScript_def)
  next
    case ne: False
    show ?thesis
    proof (cases "index (segmentTokensMap segments) ?a")
      case None
      then show ?thesis using True ne inv tm
        by (simp add: matchingEffect_def Let_def invariant_def timerOfScript_def)
    next
      case (Some cur)
      then have a: "0 \<le> ?a" "?a < int (length segments)"
        and cur: "cur = segmentTokensMap segments ! nat ?a"
        by (auto simp: index_def segmentTokensMap_def split: if_splits)
      have m0: "matchedWordCount st \<le> length cur"
        using inv a cur by (simp add: invariant_def)
      show ?thesis
      proof (cases "matchLoop segments ?a cur (matchedWordCount st) ?spoken")
        case (Jumped j)
        from matchLoop_Jumped [OF Jumped] obtain nxt where
          nxt: "index (segmentTokensMap segments) (?a + 1) = Some nxt" and j: "j < length nxt"
          by blast
        from nxt a have "?a + 1 < int (length segments)" "nxt = segmentTokensMap segments ! nat (?a + 1)"
          by (auto simp: index_def segmentTokensMap_def split: if_splits)
        then show ?thesis
          unfolding feature matchingEffect_Jumped [OF len refl ne Some Jumped]
          using a j by (simp add: invariant_def timerOfScript_def)
      next
        case (Finished m)
        have "m \<le> length cur"
          using matchLoop_Finished_bound [OF Finished m0] .
        then show ?thesis
          unfolding feature matchingEffect_Finished [OF len refl ne Some Finished]
          using a cur tm by (simp add: invariant_def timerOfScript_def)
      qed
    qed
  qed
qed

lemma invariant_timerFires:
  assumes inv: "invariant segments st" and tm: "timerOfScript segments st"
  shows "invariant segments (timerFires st) \<and> timerOfScript segments (timerFires st)"
proof (cases "scrollTimeout st")
  case None
  then show ?thesis using inv tm by (simp add: timerFires_def)
next
  case (Some t)
  show ?thesis
  proof (cases t)
    case (AutoAdvance n)
    with Some tm have "n = length segments" by (simp add: timerOfScript_def)
    then show ?thesis using Some AutoAdvance inv
      by (simp add: timerFires_def invariant_def timerOfScript_def)
  next
    case WheelThrottle
    then show ?thesis using Some inv
      by (simp add: timerFires_def invariant_def timerOfScript_def)
  qed
qed

lemma invariant_handleManualScroll:
  assumes inv: "invariant segments st" and tm: "timerOfScript segments st"
      and ne: "segments \<noteq> []"
  shows "invariant segments (handleManualScroll segments dir st)
         \<and> timerOfScript segments (handleManualScroll segments dir st)"
proof -
  have len: "0 < int (length segments)" using ne by simp
  show ?thesis
  proof (cases dir)
    case Next
    then show ?thesis using inv tm len
      by (auto simp: handleManualScroll_def Let_def invariant_def timerOfScript_def min_def)
  next
    case Prev
    then show ?thesis using inv tm len
      by (auto simp: handleManualScroll_def Let_def invariant_def timerOfScript_def max_def)
  qed
qed

lemma invariant_handleWheel:
  assumes inv: "invariant segments st" and tm: "timerOfScript segments st"
      and ne: "segments \<noteq> []"
  shows "invariant segments (handleWheel feature segments deltaY st)
         \<and> timerOfScript segments (handleWheel feature segments deltaY st)"
proof (cases "feature = TELEPROMPTER \<and> scrollTimeout st = None \<and> \<bar>deltaY\<bar> > 20")
  case False
  then show ?thesis using inv tm by (auto simp: handleWheel_def)
next
  case True
  let ?d = "if deltaY > 0 then Next else Prev"
  have eq: "handleWheel feature segments deltaY st
              = (handleManualScroll segments ?d st)\<lparr>scrollTimeout := Some WheelThrottle\<rparr>"
    using True by (simp add: handleWheel_def)
  have "invariant segments (handleManualScroll segments ?d st)"
    using invariant_handleManualScroll [OF inv tm ne] by blast
  then show ?thesis unfolding eq by (simp add: invariant_def timerOfScript_def)
qed

lemma invariant_step:
  assumes "invariant segments st" and "timerOfScript segments st" and "segments \<noteq> []"
  shows "invariant segments (step feature segments st ev)
         \<and> timerOfScript segments (step feature segments st ev)"
proof (cases ev)
  case (Transcript t)
  then show ?thesis using invariant_matchingEffect [OF assms(1,2)] by simp
next
  case TimerFires
  then show ?thesis using invariant_timerFires [OF assms(1,2)] by simp
next
  case (ManualScroll d)
  then show ?thesis using invariant_handleManualScroll [OF assms] by simp
next
  case (Wheel dy)
  then show ?thesis using invariant_handleWheel [OF assms] by simp
next
  case Reset
  then show ?thesis using assms
    by (simp add: resetEffect_def invariant_def timerOfScript_def)
qed

lemma invariant_run:
  assumes "invariant segments st" and "timerOfScript segments st" and "segments \<noteq> []"
  shows "invariant segments (run feature segments st evs)
         \<and> timerOfScript segments (run feature segments st evs)"
  using assms
proof (induction evs arbitrary: st)
  case Nil
  then show ?case by (simp add: run_def)
next
  case (Cons ev evs)
  have "invariant segments (step feature segments st ev)
         \<and> timerOfScript segments (step feature segments st ev)"
    using Cons.prems by (intro invariant_step)
  then have "invariant segments (run feature segments (step feature segments st ev) evs)
         \<and> timerOfScript segments (run feature segments (step feature segments st ev) evs)"
    using Cons.prems(3) by (intro Cons.IH) simp_all
  then show ?case by (simp add: run_def)
qed

lemma invariant_reachable:
  "segments \<noteq> [] \<Longrightarrow> invariant segments (run feature segments initialState evs)"
proof -
  assume ne: "segments \<noteq> []"
  have "invariant segments initialState" "timerOfScript segments initialState"
    by (simp_all add: invariant_def timerOfScript_def initialState_def)
  then show ?thesis using invariant_run ne by blast
qed

text \<open>
  A change of the script with a transcript present. Under a script of two segments the
  transcript \<open>b c d\<close> matched nothing and a manual advance led to the state \<open>(1, 0)\<close> with
  5 code units recorded. The script is then changed to \<open>a.\<close> and \<open>b c d e.\<close>. In that
  commit the matching effect reads the transcript from 0 against segment 1, the index of
  before the reset, and sets the count 3, while the reset sets the index 0: the state is
  \<open>(0, 3)\<close>, and segment 0 has one token.
\<close>

lemma script_change_keeps_stale_count:
  "scriptChange TELEPROMPTER [[97, 46], [98, 32, 99, 32, 100, 32, 101, 46]] [98, 32, 99, 32, 100]
     \<lparr>activeSegmentIndex = 1, matchedWordCount = 0, lastTranscriptLength = 5,
      scrollTimeout = None\<rparr>
   = \<lparr>activeSegmentIndex = 0, matchedWordCount = 3, lastTranscriptLength = 5,
      scrollTimeout = None\<rparr>
   \<and> segmentTokensMap [[97, 46], [98, 32, 99, 32, 100, 32, 101, 46]]
       = [[[97]], [[98], [99], [100], [101]]]"
  by (simp add: scriptChange_def resetEffect_def loop_eval token_eval)

text \<open>
  Claim C6 at a failing input. For the empty script there is no segment, and the manual
  advance computes \<open>Math.min(prev + 1, segments.length - 1) = -1\<close> from the initial
  state: \<open>activeSegmentIndex\<close> leaves the range \<open>0..segments.length\<close>. The same happens
  through the wheel handler.
\<close>

theorem manual_advance_on_empty_script:
  "segmenter [] = []
   \<and> run TELEPROMPTER [] initialState [ManualScroll Next]
       = \<lparr>activeSegmentIndex = - 1, matchedWordCount = 0, lastTranscriptLength = 0,
          scrollTimeout = None\<rparr>
   \<and> run TELEPROMPTER [] initialState [Wheel 30]
       = \<lparr>activeSegmentIndex = - 1, matchedWordCount = 0, lastTranscriptLength = 0,
          scrollTimeout = Some WheelThrottle\<rparr>"
  by (simp add: segmenter_def panel_eval)

section \<open>Segmenter: the characters of the script\<close>

lemma splitBar_nonempty: "splitBar s \<noteq> []"
  by (induction s) (auto split: list.splits)

lemma concat_splitBar: "concat (splitBar s) = filter (\<lambda>c. c \<noteq> bar) s"
  using splitBar_nonempty by (induction s) (auto split: list.splits)

lemma filter_dropWhile_disjoint:
  "(\<And>x. Q x \<Longrightarrow> \<not> P x) \<Longrightarrow> filter P (dropWhile Q xs) = filter P xs"
  by (induction xs) auto

lemma filter_trim: "filter (\<lambda>c. \<not> isSpace c) (trim s) = filter (\<lambda>c. \<not> isSpace c) s"
proof -
  have "filter (\<lambda>c. \<not> isSpace c) (trim s)
        = rev (filter (\<lambda>c. \<not> isSpace c) (dropWhile isSpace (rev (dropWhile isSpace s))))"
    by (simp add: trim_def rev_filter)
  also have "\<dots> = rev (filter (\<lambda>c. \<not> isSpace c) (rev (dropWhile isSpace s)))"
    by (simp add: filter_dropWhile_disjoint)
  also have "\<dots> = filter (\<lambda>c. \<not> isSpace c) (dropWhile isSpace s)"
    by (simp add: rev_filter)
  also have "\<dots> = filter (\<lambda>c. \<not> isSpace c) s"
    by (simp add: filter_dropWhile_disjoint)
  finally show ?thesis .
qed

lemma concat_filter_nonempty: "concat (filter (\<lambda>s. s \<noteq> []) xss) = concat xss"
  by (induction xss) auto

lemma filter_concat_map_trim:
  "filter (\<lambda>c. \<not> isSpace c) (concat (map trim xss)) = filter (\<lambda>c. \<not> isSpace c) (concat xss)"
  by (induction xss) (auto simp: filter_trim)

lemma filter_addSeparators:
  "filter (\<lambda>c. \<not> isSpace c \<and> c \<noteq> bar) (addSeparators s) = filter (\<lambda>c. \<not> isSpace c \<and> c \<noteq> bar) s"
proof (induction s rule: addSeparators.induct)
  case 1
  then show ?case by simp
next
  case (2 c cs)
  have "filter (\<lambda>c. \<not> isSpace c \<and> c \<noteq> bar) (dropWhile isSpace cs)
          = filter (\<lambda>c. \<not> isSpace c \<and> c \<noteq> bar) cs"
    by (rule filter_dropWhile_disjoint) simp
  with 2 show ?case by simp
qed

text \<open>
  What the segmenter keeps: the concatenation of its segments holds, in order and exactly
  once each, the characters of the script that are neither whitespace nor \<open>|\<close>.
\<close>

lemma segmenter_reconstructs_characters:
  "nonWhitespace (concat (segmenter s)) = filter (\<lambda>c. c \<noteq> bar) (nonWhitespace s)"
proof (cases "s = []")
  case True
  then show ?thesis by (simp add: segmenter_def nonWhitespace_def)
next
  case False
  then have "nonWhitespace (concat (segmenter s))
        = filter (\<lambda>c. \<not> isSpace c) (concat (map trim (splitBar (addSeparators s))))"
    by (simp add: segmenter_def concat_filter_nonempty nonWhitespace_def)
  also have "\<dots> = filter (\<lambda>c. \<not> isSpace c) (filter (\<lambda>c. c \<noteq> bar) (addSeparators s))"
    by (simp only: filter_concat_map_trim concat_splitBar)
  also have "\<dots> = filter (\<lambda>c. \<not> isSpace c \<and> c \<noteq> bar) (addSeparators s)"
    by (simp add: conj_commute)
  also have "\<dots> = filter (\<lambda>c. \<not> isSpace c \<and> c \<noteq> bar) s"
    by (rule filter_addSeparators)
  also have "\<dots> = filter (\<lambda>c. c \<noteq> bar) (nonWhitespace s)"
    by (simp add: nonWhitespace_def conj_commute)
  finally show ?thesis .
qed

text \<open>
  Claim C8 at a failing input. The segmenter marks the end of a sentence with an inserted
  \<open>|\<close> and splits at every \<open>|\<close>, so a \<open>|\<close> of the script itself is taken for a separator
  and lost. The script \<open>a|b\<close> has three non-whitespace characters; its segments \<open>a\<close> and
  \<open>b\<close> hold two of them.
\<close>

theorem segmenter_loses_bar:
  "segmenter [97, 124, 98] = [[97], [98]]
   \<and> nonWhitespace (concat (segmenter [97, 124, 98])) \<noteq> nonWhitespace [97, 124, 98]"
  by (simp add: segmenter_def trim_def isSpace_def isTerminal_def bar_def nonWhitespace_def)

end
